theory Spec2Isabelle
  imports Complex_Main "HOL-Library.Multiset"
begin

section \<open>Platform values: strings and numbers\<close>

text \<open>
  The program is a React component written in TypeScript (\<^verbatim>\<open>App\<close>). Its strings are
  modelled as \<^typ>\<open>string\<close>, one \<^typ>\<open>char\<close> per code unit, which covers the code units
  below 256. \<^verbatim>\<open>String.prototype.trim\<close> strips white space and line terminators from
  both ends; the code units below 256 that it strips are TAB, LF, VT, FF, CR, SPACE and
  NO-BREAK SPACE.
\<close>

definition isWhiteSpace :: "char \<Rightarrow> bool" where
  "isWhiteSpace c = (of_char c \<in> {9, 10, 11, 12, 13, 32, 160 :: nat})"

definition trim :: "string \<Rightarrow> string" where
  "trim s = rev (dropWhile isWhiteSpace (rev (dropWhile isWhiteSpace s)))"

text \<open>
  The relational operator \<^verbatim>\<open><\<close> on two strings compares them code unit by code unit;
  a proper prefix is smaller.
\<close>

fun js_less :: "string \<Rightarrow> string \<Rightarrow> bool" where
  "js_less xs [] = False"
| "js_less [] (y # ys) = True"
| "js_less (x # xs) (y # ys) =
     (if x = y then js_less xs ys else (of_char x :: nat) < of_char y)"

text \<open>\<^verbatim>\<open>String(n)\<close> of a non-negative integer, as a template literal inserts it.\<close>

definition digit :: "nat \<Rightarrow> char" where
  "digit d = ''0123456789'' ! d"

fun digits :: "nat \<Rightarrow> string" where
  "digits n = (if n < 10 then [digit n] else digits (n div 10) @ [digit (n mod 10)])"

declare digits.simps [simp del]

section \<open>Data model\<close>

text \<open>
  \<^verbatim>\<open>type Todo = { id: string; text: string; done: boolean; dueDate?: string | null }\<close>.
  The field names carry a prefix. The program never tells \<^verbatim>\<open>undefined\<close> from
  \<^verbatim>\<open>null\<close> in \<^verbatim>\<open>dueDate\<close> (it reads the field through \<^verbatim>\<open>??\<close> and \<^verbatim>\<open>!\<close> only), so
  both are \<^const>\<open>None\<close>; \<^term>\<open>Some []\<close> is the empty string.
\<close>

record todo =
  t_id :: string
  t_text :: string
  t_done :: bool
  t_dueDate :: "string option"

datatype Filter = F_all | F_active | F_completed

datatype SortMode = S_manual | S_due | S_status

text \<open>The \<^verbatim>\<open>useState\<close> cells of the component.\<close>

record app =
  todos :: "todo list"
  newTodo :: string
  newDue :: string
  filter_st :: Filter
  sort_st :: SortMode
  editingId :: "string option"
  editingText :: string
  undoStack :: "todo list option"
  undoMessage :: "string option"

definition initial :: app where
  "initial = \<lparr>todos = [], newTodo = [], newDue = [], filter_st = F_all, sort_st = S_manual,
     editingId = None, editingText = [], undoStack = None, undoMessage = None\<rparr>"

abbreviation ids :: "todo list \<Rightarrow> string list" where
  "ids ts \<equiv> map t_id ts"

section \<open>Identifier generator\<close>

text \<open>
  \<^verbatim>\<open>safeId\<close> reads the environment: \<^verbatim>\<open>crypto.randomUUID()\<close> when it exists, and
  \<^verbatim>\<open>String(Date.now() + Math.random())\<close> otherwise. The environment is a record of what
  these calls return at the moment of the call.
\<close>

record env =
  randomUUID :: "string option"
  clockAndRandom :: string

definition safeId :: "env \<Rightarrow> string" where
  "safeId e = (case randomUUID e of Some u \<Rightarrow> u | None \<Rightarrow> clockAndRandom e)"

section \<open>Task store\<close>

text \<open>
  Every handler is a function from the state before the event to the state after it. A
  state updater passed to \<^verbatim>\<open>setTodos\<close> is applied to the current list, and the
  \<^verbatim>\<open>setUndoStack\<close> and \<^verbatim>\<open>setUndoMessage\<close> calls inside it take effect with it.
\<close>

definition addTodo :: "env \<Rightarrow> app \<Rightarrow> app" where
  "addTodo e st =
     (let trimmed = trim (newTodo st);
          canAdd = (0 < length trimmed)
      in if \<not> canAdd then st
         else
           let due = (if newDue st = [] then None else Some (newDue st));
               newTask = \<lparr>t_id = safeId e, t_text = trimmed, t_done = False, t_dueDate = due\<rparr>
           in st\<lparr>todos := todos st @ [newTask], newTodo := [], newDue := []\<rparr>)"

definition toggleTodo :: "string \<Rightarrow> app \<Rightarrow> app" where
  "toggleTodo i st =
     st\<lparr>todos := map (\<lambda>t. if t_id t = i then t\<lparr>t_done := \<not> t_done t\<rparr> else t) (todos st)\<rparr>"

definition deletedMessage :: "todo \<Rightarrow> string" where
  "deletedMessage removed = ''Deleted \"'' @ t_text removed @ ''\"''"

definition deleteTodo :: "string \<Rightarrow> app \<Rightarrow> app" where
  "deleteTodo i st =
     (case find (\<lambda>t. t_id t = i) (todos st) of
        None \<Rightarrow> st
      | Some removed \<Rightarrow>
          st\<lparr>undoStack := Some [removed],
             undoMessage := Some (deletedMessage removed),
             todos := filter (\<lambda>t. t_id t \<noteq> i) (todos st)\<rparr>)"

definition startEditing :: "todo \<Rightarrow> app \<Rightarrow> app" where
  "startEditing t st = st\<lparr>editingId := Some (t_id t), editingText := t_text t\<rparr>"

definition cancelEditing :: "app \<Rightarrow> app" where
  "cancelEditing st = st\<lparr>editingId := None, editingText := []\<rparr>"

definition saveEditing :: "app \<Rightarrow> app" where
  "saveEditing st =
     (let text = trim (editingText st)
      in case editingId st of
           None \<Rightarrow> st
         | Some i \<Rightarrow>
             (let st1 =
                (if length text = 0 then
                   (let st0 = (case find (\<lambda>t. t_id t = i) (todos st) of
                                 None \<Rightarrow> st
                               | Some removed \<Rightarrow>
                                   st\<lparr>undoStack := Some [removed],
                                      undoMessage := Some (deletedMessage removed)\<rparr>)
                    in st0\<lparr>todos := filter (\<lambda>t. t_id t \<noteq> i) (todos st)\<rparr>)
                 else
                   st\<lparr>todos := map (\<lambda>t. if t_id t = i then t\<lparr>t_text := text\<rparr> else t)
                                  (todos st)\<rparr>)
              in st1\<lparr>editingId := None, editingText := []\<rparr>))"

definition clearedMessage :: "nat \<Rightarrow> string" where
  "clearedMessage n =
     ''Cleared '' @ digits n @ '' completed item'' @ (if n = 1 then [] else ''s'')"

definition clearCompleted :: "app \<Rightarrow> app" where
  "clearCompleted st =
     (let removed = filter (\<lambda>t. t_done t) (todos st);
          st0 = (if 0 < length removed
                 then st\<lparr>undoStack := Some removed,
                         undoMessage := Some (clearedMessage (length removed))\<rparr>
                 else st)
      in st0\<lparr>todos := filter (\<lambda>t. \<not> t_done t) (todos st)\<rparr>)"

definition undo :: "app \<Rightarrow> app" where
  "undo st =
     (case undoStack st of
        None \<Rightarrow> st
      | Some stack \<Rightarrow>
          if length stack = 0 then st
          else
            (let existingIds = set (ids (todos st));
                 restored = filter (\<lambda>t. t_id t \<notin> existingIds) stack
             in st\<lparr>todos := todos st @ restored, undoStack := None, undoMessage := None\<rparr>))"

definition dismissUndo :: "app \<Rightarrow> app" where
  "dismissUndo st = st\<lparr>undoStack := None, undoMessage := None\<rparr>"

text \<open>
  The operations of the task store as its callers name them. \<^verbatim>\<open>add\<close> submits the
  form holding the given text and due date input (empty when no date is given);
  \<^verbatim>\<open>editCommit\<close> commits an editing session on task \<open>i\<close> whose draft is the given text.
\<close>

definition add :: "env \<Rightarrow> string \<Rightarrow> string \<Rightarrow> app \<Rightarrow> app" where
  "add e txt due st = addTodo e (st\<lparr>newTodo := txt, newDue := due\<rparr>)"

definition editCommit :: "string \<Rightarrow> string \<Rightarrow> app \<Rightarrow> app" where
  "editCommit i txt st = saveEditing (st\<lparr>editingId := Some i, editingText := txt\<rparr>)"

datatype action =
    Add env string string
  | Toggle string
  | Delete string
  | EditCommit string string
  | ClearCompleted
  | Undo
  | DismissUndo

fun perform :: "action \<Rightarrow> app \<Rightarrow> app" where
  "perform (Add e txt due) st = add e txt due st"
| "perform (Toggle i) st = toggleTodo i st"
| "perform (Delete i) st = deleteTodo i st"
| "perform (EditCommit i txt) st = editCommit i txt st"
| "perform ClearCompleted st = clearCompleted st"
| "perform Undo st = undo st"
| "perform DismissUndo st = dismissUndo st"

text \<open>The identifier that \<^const>\<open>safeId\<close> hands to an \<^const>\<open>Add\<close> is not in the collection.\<close>

fun fresh :: "action \<Rightarrow> app \<Rightarrow> bool" where
  "fresh (Add e txt due) st = (safeId e \<notin> set (ids (todos st)))"
| "fresh a st = True"

fun run :: "action list \<Rightarrow> app \<Rightarrow> app" where
  "run [] st = st"
| "run (a # as) st = run as (perform a st)"

fun all_fresh :: "action list \<Rightarrow> app \<Rightarrow> bool" where
  "all_fresh [] st = True"
| "all_fresh (a # as) st = (fresh a st \<and> all_fresh as (perform a st))"

text \<open>No two tasks of the undo buffer share an id.\<close>

definition buffer_ok :: "app \<Rightarrow> bool" where
  "buffer_ok st = (case undoStack st of None \<Rightarrow> True | Some stack \<Rightarrow> distinct (ids stack))"

section \<open>View projection\<close>

text \<open>
  \<^verbatim>\<open>String.prototype.localeCompare\<close> is the collation of the platform's locale: it is a
  parameter \<open>lc\<close> of the projection, returning a negative number, zero or a positive
  number. \<^verbatim>\<open>Array.prototype.sort\<close> with a comparator is a stable sort; for a comparator
  that is a total preorder every stable sort gives the same array, the one that insertion
  from the right gives.
\<close>

type_synonym collation = "string \<Rightarrow> string \<Rightarrow> int"

fun insert_by :: "('a \<Rightarrow> 'a \<Rightarrow> int) \<Rightarrow> 'a \<Rightarrow> 'a list \<Rightarrow> 'a list" where
  "insert_by cmp x [] = [x]"
| "insert_by cmp x (y # ys) = (if cmp x y \<le> 0 then x # y # ys else y # insert_by cmp x ys)"

definition array_sort :: "('a \<Rightarrow> 'a \<Rightarrow> int) \<Rightarrow> 'a list \<Rightarrow> 'a list" where
  "array_sort cmp xs = foldr (insert_by cmp) xs []"

text \<open>\<^verbatim>\<open>a.dueDate ?? ""\<close>\<close>

definition dueKey :: "todo \<Rightarrow> string" where
  "dueKey t = (case t_dueDate t of None \<Rightarrow> [] | Some d \<Rightarrow> d)"

definition dueComparator :: "collation \<Rightarrow> todo \<Rightarrow> todo \<Rightarrow> int" where
  "dueComparator lc a b =
     (let ad = dueKey a; bd = dueKey b
      in if ad = bd then lc (t_text a) (t_text b)
         else if ad = [] then 1
         else if bd = [] then - 1
         else lc ad bd)"

text \<open>\<^verbatim>\<open>Number(a.done) - Number(b.done) || a.text.localeCompare(b.text)\<close>\<close>

definition statusComparator :: "collation \<Rightarrow> todo \<Rightarrow> todo \<Rightarrow> int" where
  "statusComparator lc a b =
     (let d = (if t_done a then 1 else 0) - (if t_done b then 1 else 0)
      in if d \<noteq> 0 then d else lc (t_text a) (t_text b))"

definition filteredTodos :: "collation \<Rightarrow> todo list \<Rightarrow> Filter \<Rightarrow> SortMode \<Rightarrow> todo list" where
  "filteredTodos lc ts flt srt =
     (let list = (case flt of
                    F_active \<Rightarrow> filter (\<lambda>t. \<not> t_done t) ts
                  | F_completed \<Rightarrow> filter (\<lambda>t. t_done t) ts
                  | F_all \<Rightarrow> ts)
      in if srt = S_due then array_sort (dueComparator lc) list
         else if srt = S_status then array_sort (statusComparator lc) list
         else list)"

text \<open>The tasks that a filter lets through.\<close>

definition passes :: "Filter \<Rightarrow> todo \<Rightarrow> bool" where
  "passes flt t = (case flt of F_all \<Rightarrow> True | F_active \<Rightarrow> \<not> t_done t | F_completed \<Rightarrow> t_done t)"

text \<open>
  The same function over a store of arrays, where \<^verbatim>\<open>sort\<close> works in place: an array is
  an address into the store, \<^verbatim>\<open>filter\<close> and the spread \<^verbatim>\<open>[...list]\<close> allocate a new
  array, and \<^verbatim>\<open>sort\<close> overwrites the array it is called on and returns its address.
\<close>

type_synonym store = "todo list list"

definition alloc :: "store \<Rightarrow> todo list \<Rightarrow> store \<times> nat" where
  "alloc h xs = (h @ [xs], length h)"

definition sort_in_place :: "(todo \<Rightarrow> todo \<Rightarrow> int) \<Rightarrow> nat \<Rightarrow> store \<Rightarrow> store \<times> nat" where
  "sort_in_place cmp r h = (h[r := array_sort cmp (h ! r)], r)"

definition filteredTodos_in_store ::
    "collation \<Rightarrow> store \<Rightarrow> nat \<Rightarrow> Filter \<Rightarrow> SortMode \<Rightarrow> store \<times> nat" where
  "filteredTodos_in_store lc h todosRef flt srt =
     (let (h1, list) = (case flt of
                          F_active \<Rightarrow> alloc h (filter (\<lambda>t. \<not> t_done t) (h ! todosRef))
                        | F_completed \<Rightarrow> alloc h (filter (\<lambda>t. t_done t) (h ! todosRef))
                        | F_all \<Rightarrow> (h, todosRef))
      in if srt = S_due then
           (let (h2, copy) = alloc h1 (h1 ! list) in sort_in_place (dueComparator lc) copy h2)
         else if srt = S_status then
           (let (h2, copy) = alloc h1 (h1 ! list) in sort_in_place (statusComparator lc) copy h2)
         else (h1, list))"

text \<open>
  \<^verbatim>\<open>isOverdue\<close>; \<open>today\<close> is \<^verbatim>\<open>new Date().toISOString().slice(0, 10)\<close> at the moment of
  the call. \<^verbatim>\<open>!t.dueDate\<close> holds for an absent due date and for the empty string.
\<close>

definition isOverdue :: "string \<Rightarrow> todo \<Rightarrow> bool" where
  "isOverdue today t =
     (case t_dueDate t of
        None \<Rightarrow> False
      | Some d \<Rightarrow> if d = [] \<or> t_done t then False else js_less d today)"

text \<open>
  A collation to run the projection with: the order of the code units. On ISO dates
  (\<^verbatim>\<open>YYYY-MM-DD\<close>) every collation orders as it does.
\<close>

definition codeUnitCompare :: collation where
  "codeUnitCompare x y = (if x = y then 0 else if js_less x y then - 1 else 1)"

text \<open>
  What the projection needs of the platform: the collation is a total preorder, and on the
  due dates of the tasks at hand it orders as the code units do.
\<close>

definition total_preorder :: "collation \<Rightarrow> bool" where
  "total_preorder lc =
     ((\<forall>x y. lc x y \<le> 0 \<or> lc y x \<le> 0) \<and> (\<forall>x y z. lc x y \<le> 0 \<longrightarrow> lc y z \<le> 0 \<longrightarrow> lc x z \<le> 0))"

definition dates_in_code_unit_order :: "collation \<Rightarrow> todo list \<Rightarrow> bool" where
  "dates_in_code_unit_order lc ts =
     (\<forall>a \<in> set ts. \<forall>b \<in> set ts.
        dueKey a \<noteq> [] \<and> dueKey b \<noteq> [] \<and> dueKey a \<noteq> dueKey b \<longrightarrow>
        (lc (dueKey a) (dueKey b) \<le> 0 \<longleftrightarrow> js_less (dueKey a) (dueKey b)))"

text \<open>
  The due dates of the data model: \<^verbatim>\<open>dueDate?: string | null; // ISO date string
  (YYYY-MM-DD)\<close>. The date input of the form yields such a string or the empty string,
  and \<^verbatim>\<open>addTodo\<close> turns the empty string into an absent due date.
\<close>

definition isDigit :: "char \<Rightarrow> bool" where
  "isDigit c = (48 \<le> (of_char c :: nat) \<and> (of_char c :: nat) \<le> 57)"

definition iso_date :: "string \<Rightarrow> bool" where
  "iso_date d =
     (length d = 10 \<and> list_all isDigit (take 4 d) \<and> d ! 4 = CHR ''-'' \<and>
      list_all isDigit (take 2 (drop 5 d)) \<and> d ! 7 = CHR ''-'' \<and> list_all isDigit (drop 8 d))"

definition well_dated :: "todo \<Rightarrow> bool" where
  "well_dated t = (case t_dueDate t of None \<Rightarrow> True | Some d \<Rightarrow> iso_date d)"

text \<open>
  On ISO dates the collation of the platform orders as the code units do: the format
  makes the lexicographic order the chronological one.
\<close>

definition orders_iso_dates :: "collation \<Rightarrow> bool" where
  "orders_iso_dates lc =
     (\<forall>x y. iso_date x \<and> iso_date y \<and> x \<noteq> y \<longrightarrow> (lc x y \<le> 0 \<longleftrightarrow> js_less x y))"

text \<open>
  The order of the \<^verbatim>\<open>due\<close> mode: \<open>a\<close> may stand before \<open>b\<close>. A task has a date when its
  \<^verbatim>\<open>dueDate\<close> is a non-empty string.
\<close>

definition due_order :: "collation \<Rightarrow> todo \<Rightarrow> todo \<Rightarrow> bool" where
  "due_order lc a b =
     (if dueKey a = dueKey b then lc (t_text a) (t_text b) \<le> 0
      else if dueKey a = [] then False
      else if dueKey b = [] then True
      else js_less (dueKey a) (dueKey b))"

text \<open>
  The order of the \<^verbatim>\<open>due\<close> mode in the words of the specification: ascending by the
  lexicographic comparison of the \<^verbatim>\<open>dueDate\<close> strings, a task lacking a \<^verbatim>\<open>dueDate\<close>
  after every task having one, ties (equal due dates, or both absent) by ascending
  comparison of the texts.
\<close>

definition due_order_by_presence :: "collation \<Rightarrow> todo \<Rightarrow> todo \<Rightarrow> bool" where
  "due_order_by_presence lc a b =
     (case (t_dueDate a, t_dueDate b) of
        (Some x, Some y) \<Rightarrow> if x = y then lc (t_text a) (t_text b) \<le> 0 else js_less x y
      | (Some x, None) \<Rightarrow> True
      | (None, Some y) \<Rightarrow> False
      | (None, None) \<Rightarrow> lc (t_text a) (t_text b) \<le> 0)"

text \<open>A task whose \<^verbatim>\<open>dueDate\<close> is the empty string, with the field removed.\<close>

definition without_empty_date :: "todo \<Rightarrow> todo" where
  "without_empty_date t = (if t_dueDate t = Some [] then t\<lparr>t_dueDate := None\<rparr> else t)"

section \<open>Derived counters\<close>

text \<open>
  The numbers of the platform are binary64 floating point numbers. The counters only meet
  finite non-negative ones: \<^term>\<open>Double m e\<close> is the number \<open>m \<sqdot> 2\<^sup>e\<close>. Every
  arithmetic operation returns the number with a significand of 53 bits that is nearest
  to the exact result, the one with the even significand when two are equally near;
  \<^term>\<open>round_quotient a b\<close> is that number for the exact result \<open>a / b\<close>. The exponent
  range is not modelled: an array has fewer than \<open>2\<^sup>3\<^sup>2\<close> elements, and no quotient of two
  lengths and no product of it with 100 leaves the range of the normal numbers.
\<close>

datatype double = Double nat int

fun bitlen :: "nat \<Rightarrow> nat" where
  "bitlen n = (if n = 0 then 0 else Suc (bitlen (n div 2)))"

declare bitlen.simps [simp del]

definition round_half_even :: "nat \<Rightarrow> nat \<Rightarrow> nat" where
  "round_half_even n d =
     (let q = n div d; r = n mod d
      in if 2 * r < d then q else if d < 2 * r then q + 1 else if even q then q else q + 1)"






text \<open>
  \<^verbatim>\<open>Math.round\<close>: the nearest integer, the greater one when two are equally near, that
  is \<open>\<lfloor>x + 1/2\<rfloor>\<close>.
\<close>

fun Math_round :: "double \<Rightarrow> int" where
  "Math_round (Double m e) =
     (if 0 \<le> e then int (m * 2 ^ nat e)
      else int ((2 * m + 2 ^ nat (- e)) div (2 * 2 ^ nat (- e))))"


definition remainingCount :: "todo list \<Rightarrow> nat" where
  "remainingCount ts = length (filter (\<lambda>t. \<not> t_done t) ts)"



section \<open>Loading the persisted state\<close>

text \<open>
  The effect that runs when the component mounts. \<^verbatim>\<open>localStorage.getItem\<close> throws when
  the storage is unavailable and returns \<^verbatim>\<open>null\<close> (\<^const>\<open>None\<close>) for a missing key;
  \<^verbatim>\<open>JSON.parse\<close> throws on text that is not JSON. Both are parameters. Of a parsed value
  the effect only asks whether it is an array; the elements of an array are taken as
  tasks, unchecked, as the type annotation \<^verbatim>\<open>parsed: Todo[]\<close> does.
\<close>

datatype js_error = SecurityError | SyntaxError

datatype parsed = Array "todo list" | NotArray

type_synonym storage = "string \<Rightarrow> js_error + string option"

type_synonym parser = "string \<Rightarrow> js_error + parsed"

definition STORAGE_KEYS_todos :: string where
  "STORAGE_KEYS_todos = ''todos''"

definition STORAGE_KEYS_filter :: string where
  "STORAGE_KEYS_filter = ''todos_filter''"

definition STORAGE_KEYS_sort :: string where
  "STORAGE_KEYS_sort = ''todos_sort''"

text \<open>The bodies of the three \<^verbatim>\<open>try\<close> blocks; \<^const>\<open>Inl\<close> is a throw.\<close>

definition loadTodos :: "storage \<Rightarrow> parser \<Rightarrow> app \<Rightarrow> js_error + app" where
  "loadTodos getItem parse st =
     (case getItem STORAGE_KEYS_todos of
        Inl err \<Rightarrow> Inl err
      | Inr None \<Rightarrow> Inr st
      | Inr (Some saved) \<Rightarrow>
          if saved = [] then Inr st
          else (case parse saved of
                  Inl err \<Rightarrow> Inl err
                | Inr (Array ts) \<Rightarrow> Inr (st\<lparr>todos := ts\<rparr>)
                | Inr NotArray \<Rightarrow> Inr st))"

definition loadFilter :: "storage \<Rightarrow> app \<Rightarrow> js_error + app" where
  "loadFilter getItem st =
     (case getItem STORAGE_KEYS_filter of
        Inl err \<Rightarrow> Inl err
      | Inr savedFilter \<Rightarrow>
          if savedFilter = Some ''all'' then Inr (st\<lparr>filter_st := F_all\<rparr>)
          else if savedFilter = Some ''active'' then Inr (st\<lparr>filter_st := F_active\<rparr>)
          else if savedFilter = Some ''completed'' then Inr (st\<lparr>filter_st := F_completed\<rparr>)
          else Inr st)"

definition loadSort :: "storage \<Rightarrow> app \<Rightarrow> js_error + app" where
  "loadSort getItem st =
     (case getItem STORAGE_KEYS_sort of
        Inl err \<Rightarrow> Inl err
      | Inr savedSort \<Rightarrow>
          if savedSort = Some ''manual'' then Inr (st\<lparr>sort_st := S_manual\<rparr>)
          else if savedSort = Some ''due'' then Inr (st\<lparr>sort_st := S_due\<rparr>)
          else if savedSort = Some ''status'' then Inr (st\<lparr>sort_st := S_status\<rparr>)
          else Inr st)"

text \<open>\<^verbatim>\<open>try { body } catch {}\<close>: a throw of the body ends the block with the state as it was.\<close>

definition try_catch :: "(app \<Rightarrow> js_error + app) \<Rightarrow> app \<Rightarrow> js_error + app" where
  "try_catch body st = (case body st of Inl err \<Rightarrow> Inr st | Inr st' \<Rightarrow> Inr st')"

text \<open>The state with which such a block ends.\<close>

definition block_end :: "(app \<Rightarrow> js_error + app) \<Rightarrow> app \<Rightarrow> app" where
  "block_end body st = (case body st of Inl err \<Rightarrow> st | Inr st' \<Rightarrow> st')"

definition load :: "storage \<Rightarrow> parser \<Rightarrow> app \<Rightarrow> js_error + app" where
  "load getItem parse st =
     (case try_catch (loadTodos getItem parse) st of
        Inl err \<Rightarrow> Inl err
      | Inr st1 \<Rightarrow>
          (case try_catch (loadFilter getItem) st1 of
             Inl err \<Rightarrow> Inl err
           | Inr st2 \<Rightarrow> try_catch (loadSort getItem) st2))"

section \<open>Adding a task\<close>

lemma todos_addTodo_rejected: "trim (newTodo st) = [] \<Longrightarrow> addTodo e st = st"
  by (simp add: addTodo_def)

lemma todos_addTodo_accepted:
  "trim (newTodo st) \<noteq> [] \<Longrightarrow>
   todos (addTodo e st) =
     todos st @ [\<lparr>t_id = safeId e, t_text = trim (newTodo st), t_done = False,
                  t_dueDate = (if newDue st = [] then None else Some (newDue st))\<rparr>]"
  by (simp add: addTodo_def Let_def)

text \<open>
  C1. A call of \<^verbatim>\<open>add\<close> whose text trims to the empty string leaves the state, and so the
  canonical collection, as it was. Any other call appends exactly one task at the end: its
  id is the fresh identifier, its text the trimmed text, it is not done, and its due date
  is the one given, or absent when none (the empty date input) was given. The collection
  is one longer and the tasks that were there are the same, at the same positions.
\<close>

theorem add_appends_one_task:
  "(trim (newTodo st) = [] \<longrightarrow> addTodo e st = st) \<and>
   (trim (newTodo st) \<noteq> [] \<longrightarrow>
      todos (addTodo e st) =
        todos st @ [\<lparr>t_id = safeId e, t_text = trim (newTodo st), t_done = False,
                     t_dueDate = (if newDue st = [] then None else Some (newDue st))\<rparr>] \<and>
      length (todos (addTodo e st)) = length (todos st) + 1 \<and>
      take (length (todos st)) (todos (addTodo e st)) = todos st)"
  using todos_addTodo_rejected [of st e] todos_addTodo_accepted [of st e] by simp

theorem add_appends_one_task_witness:
  "trim (newTodo (initial\<lparr>newTodo := ''   ''\<rparr>)) = [] \<and>
   addTodo \<lparr>randomUUID = Some ''u1'', clockAndRandom = ''17.5''\<rparr> (initial\<lparr>newTodo := ''   ''\<rparr>)
     = initial\<lparr>newTodo := ''   ''\<rparr> \<and>
   trim (newTodo (initial\<lparr>newTodo := '' Buy milk '', newDue := ''2024-01-01''\<rparr>)) \<noteq> [] \<and>
   todos (addTodo \<lparr>randomUUID = Some ''u1'', clockAndRandom = ''17.5''\<rparr>
            (initial\<lparr>newTodo := '' Buy milk '', newDue := ''2024-01-01''\<rparr>))
     = [\<lparr>t_id = ''u1'', t_text = ''Buy milk'', t_done = False, t_dueDate = Some ''2024-01-01''\<rparr>]"
  using add_appends_one_task [of "initial\<lparr>newTodo := ''   ''\<rparr>"
            "\<lparr>randomUUID = Some ''u1'', clockAndRandom = ''17.5''\<rparr>"]
        add_appends_one_task [of "initial\<lparr>newTodo := '' Buy milk '', newDue := ''2024-01-01''\<rparr>"
            "\<lparr>randomUUID = Some ''u1'', clockAndRandom = ''17.5''\<rparr>"]
  by (simp add: trim_def isWhiteSpace_def initial_def safeId_def)

section \<open>Deleting, committing an edit, undoing\<close>

lemma find_id_None: "find (\<lambda>t. t_id t = i) ts = None \<longleftrightarrow> i \<notin> set (ids ts)"
  by (auto simp: find_None_iff)

lemma find_id_Some:
  "find (\<lambda>t. t_id t = i) ts = Some r \<Longrightarrow> r \<in> set ts \<and> t_id r = i"
  by (induction ts) (auto split: if_splits)

lemma filter_absent_id: "i \<notin> set (ids ts) \<Longrightarrow> filter (\<lambda>t. t_id t \<noteq> i) ts = ts"
  by (induction ts) auto

text \<open>
  C2. Committing an edit of task \<open>i\<close> with a text that trims to the empty string leaves
  the same canonical collection, the same undo buffer and the same undo message as
  \<^verbatim>\<open>delete(i)\<close> does from the same state, whether or not \<open>i\<close> is in the collection.
\<close>

theorem editCommit_empty_is_delete:
  assumes "trim txt = []"
  shows "todos (editCommit i txt st) = todos (deleteTodo i st) \<and>
         undoStack (editCommit i txt st) = undoStack (deleteTodo i st) \<and>
         undoMessage (editCommit i txt st) = undoMessage (deleteTodo i st)"
proof (cases "find (\<lambda>t. t_id t = i) (todos st)")
  case None
  then have "filter (\<lambda>t. t_id t \<noteq> i) (todos st) = todos st"
    by (simp add: find_id_None filter_absent_id)
  with None assms show ?thesis
    by (simp add: editCommit_def saveEditing_def deleteTodo_def)
next
  case (Some removed)
  with assms show ?thesis
    by (simp add: editCommit_def saveEditing_def deleteTodo_def)
qed

theorem editCommit_empty_is_delete_witness:
  "trim '' '' = [] \<and>
   todos (editCommit ''a'' '' ''
     (initial\<lparr>todos := [\<lparr>t_id = ''a'', t_text = ''Buy milk'', t_done = False, t_dueDate = None\<rparr>,
                         \<lparr>t_id = ''b'', t_text = ''Call Bob'', t_done = True, t_dueDate = None\<rparr>]\<rparr>))
     = [\<lparr>t_id = ''b'', t_text = ''Call Bob'', t_done = True, t_dueDate = None\<rparr>] \<and>
   undoStack (editCommit ''a'' '' ''
     (initial\<lparr>todos := [\<lparr>t_id = ''a'', t_text = ''Buy milk'', t_done = False, t_dueDate = None\<rparr>,
                         \<lparr>t_id = ''b'', t_text = ''Call Bob'', t_done = True, t_dueDate = None\<rparr>]\<rparr>))
     = Some [\<lparr>t_id = ''a'', t_text = ''Buy milk'', t_done = False, t_dueDate = None\<rparr>] \<and>
   undoMessage (editCommit ''a'' '' ''
     (initial\<lparr>todos := [\<lparr>t_id = ''a'', t_text = ''Buy milk'', t_done = False, t_dueDate = None\<rparr>,
                         \<lparr>t_id = ''b'', t_text = ''Call Bob'', t_done = True, t_dueDate = None\<rparr>]\<rparr>))
     = Some ''Deleted \"Buy milk\"''"
  using editCommit_empty_is_delete [of "'' ''" "''a''"
    "initial\<lparr>todos := [\<lparr>t_id = ''a'', t_text = ''Buy milk'', t_done = False, t_dueDate = None\<rparr>,
                        \<lparr>t_id = ''b'', t_text = ''Call Bob'', t_done = True, t_dueDate = None\<rparr>]\<rparr>"]
  by (simp add: trim_def isWhiteSpace_def initial_def deleteTodo_def deletedMessage_def)

lemma filter_id_absent_nil: "i \<notin> set (ids ts) \<Longrightarrow> filter (\<lambda>t. t_id t = i) ts = []"
  by (induction ts) auto

lemma filter_same_id_single:
  "distinct (ids ts) \<Longrightarrow> r \<in> set ts \<Longrightarrow> filter (\<lambda>t. t_id t = t_id r) ts = [r]"
proof (induction ts)
  case Nil
  then show ?case by simp
next
  case (Cons t ts)
  show ?case
  proof (cases "t = r")
    case True
    with Cons.prems have "t_id r \<notin> set (ids ts)" by simp
    then have "filter (\<lambda>t. t_id t = t_id r) ts = []"
      by (rule filter_id_absent_nil)
    with True show ?thesis by simp
  next
    case False
    with Cons.prems have "r \<in> set ts" and "t_id t \<noteq> t_id r" by auto
    with Cons show ?thesis by simp
  qed
qed

lemma mset_remove_id:
  assumes "distinct (ids ts)" and "r \<in> set ts"
  shows "mset (filter (\<lambda>t. t_id t \<noteq> t_id r) ts) + {#r#} = mset ts"
proof -
  have "mset ts = mset (filter (\<lambda>t. t_id t = t_id r) ts)
                  + mset (filter (\<lambda>t. \<not> t_id t = t_id r) ts)"
    by (induction ts) simp_all
  moreover have "filter (\<lambda>t. t_id t = t_id r) ts = [r]"
    using assms by (rule filter_same_id_single)
  ultimately show ?thesis by simp
qed

lemma delete_then_undo_todos:
  assumes "find (\<lambda>t. t_id t = i) (todos st) = Some r"
  shows "undo (deleteTodo i st) =
           st\<lparr>todos := filter (\<lambda>t. t_id t \<noteq> i) (todos st) @ [r],
              undoStack := None, undoMessage := None\<rparr>"
proof -
  from find_id_Some [OF assms] have "r \<in> set (todos st)" and "t_id r = i" by simp_all
  moreover have "i \<notin> set (ids (filter (\<lambda>t. t_id t \<noteq> i) (todos st)))" by auto
  ultimately show ?thesis using assms by (simp add: deleteTodo_def undo_def Let_def)
qed

text \<open>
  C3. When \<open>i\<close> is the id of a task of the collection, \<^verbatim>\<open>delete(i)\<close> followed at once by
  \<^verbatim>\<open>undo()\<close> gives a collection with the same set of ids as before, and empties the
  undo buffer and its message. The task that comes back is the one found under \<open>i\<close>, and it
  comes back at the end: the collection is the other tasks in their order, then that task.
  When the ids of the collection are unique, the collection holds the same tasks as before
  the deletion (as a multiset, so also as a set).
\<close>

theorem delete_then_undo_restores:
  assumes "i \<in> set (ids (todos st))"
  shows "set (ids (todos (undo (deleteTodo i st)))) = set (ids (todos st)) \<and>
         undoStack (undo (deleteTodo i st)) = None \<and>
         undoMessage (undo (deleteTodo i st)) = None \<and>
         (\<exists>r. find (\<lambda>t. t_id t = i) (todos st) = Some r \<and>
              todos (undo (deleteTodo i st)) = filter (\<lambda>t. t_id t \<noteq> i) (todos st) @ [r]) \<and>
         (distinct (ids (todos st)) \<longrightarrow>
            mset (todos (undo (deleteTodo i st))) = mset (todos st) \<and>
            set (todos (undo (deleteTodo i st))) = set (todos st))"
proof -
  from assms obtain r where r: "find (\<lambda>t. t_id t = i) (todos st) = Some r"
    using find_id_None [of i "todos st"] by (cases "find (\<lambda>t. t_id t = i) (todos st)") auto
  then have mem: "r \<in> set (todos st)" and rid: "t_id r = i"
    using find_id_Some by blast+
  have after: "todos (undo (deleteTodo i st)) = filter (\<lambda>t. t_id t \<noteq> i) (todos st) @ [r]"
    and "undoStack (undo (deleteTodo i st)) = None"
    and "undoMessage (undo (deleteTodo i st)) = None"
    by (simp_all add: delete_then_undo_todos [OF r])
  moreover have "set (ids (todos (undo (deleteTodo i st)))) = set (ids (todos st))"
    using mem rid by (auto simp: after)
  moreover have "mset (todos (undo (deleteTodo i st))) = mset (todos st)"
    if "distinct (ids (todos st))"
    using mset_remove_id [OF that mem] by (simp add: after rid)
  moreover have "set (todos (undo (deleteTodo i st))) = set (todos st)"
    if "distinct (ids (todos st))"
    using mset_remove_id [OF that mem] mset_eq_setD [of "todos (undo (deleteTodo i st))" "todos st"]
    by (simp add: after rid)
  ultimately show ?thesis using r by simp
qed

theorem delete_then_undo_restores_witness:
  "''a'' \<in> set (ids (todos
      (initial\<lparr>todos := [\<lparr>t_id = ''a'', t_text = ''Buy milk'', t_done = False, t_dueDate = None\<rparr>,
                          \<lparr>t_id = ''b'', t_text = ''Call Bob'', t_done = True, t_dueDate = None\<rparr>]\<rparr>))) \<and>
   distinct (ids (todos
      (initial\<lparr>todos := [\<lparr>t_id = ''a'', t_text = ''Buy milk'', t_done = False, t_dueDate = None\<rparr>,
                          \<lparr>t_id = ''b'', t_text = ''Call Bob'', t_done = True, t_dueDate = None\<rparr>]\<rparr>))) \<and>
   todos (undo (deleteTodo ''a''
      (initial\<lparr>todos := [\<lparr>t_id = ''a'', t_text = ''Buy milk'', t_done = False, t_dueDate = None\<rparr>,
                          \<lparr>t_id = ''b'', t_text = ''Call Bob'', t_done = True, t_dueDate = None\<rparr>]\<rparr>)))
     = [\<lparr>t_id = ''b'', t_text = ''Call Bob'', t_done = True, t_dueDate = None\<rparr>,
        \<lparr>t_id = ''a'', t_text = ''Buy milk'', t_done = False, t_dueDate = None\<rparr>] \<and>
   undoStack (undo (deleteTodo ''a''
      (initial\<lparr>todos := [\<lparr>t_id = ''a'', t_text = ''Buy milk'', t_done = False, t_dueDate = None\<rparr>,
                          \<lparr>t_id = ''b'', t_text = ''Call Bob'', t_done = True, t_dueDate = None\<rparr>]\<rparr>)))
     = None"
  using delete_then_undo_restores [of "''a''"
    "initial\<lparr>todos := [\<lparr>t_id = ''a'', t_text = ''Buy milk'', t_done = False, t_dueDate = None\<rparr>,
                        \<lparr>t_id = ''b'', t_text = ''Call Bob'', t_done = True, t_dueDate = None\<rparr>]\<rparr>"]
  by (simp add: initial_def)

section \<open>Clearing the completed tasks\<close>

text \<open>
  C4. \<^verbatim>\<open>clearCompleted()\<close> keeps exactly the tasks that are not done, in their order. When
  \<open>n > 0\<close> tasks were done, the undo buffer becomes the sequence of all of them, in their
  order, and the message becomes \<^verbatim>\<open>Cleared n completed items\<close>, with \<^verbatim>\<open>item\<close> for
  \<^verbatim>\<open>items\<close> exactly when \<open>n = 1\<close>. When no task was done, the undo buffer and the message
  stay as they were.
\<close>

theorem clearCompleted_removes_done:
  "todos (clearCompleted st) = filter (\<lambda>t. \<not> t_done t) (todos st) \<and>
   (filter t_done (todos st) \<noteq> [] \<longrightarrow>
      undoStack (clearCompleted st) = Some (filter t_done (todos st)) \<and>
      undoMessage (clearCompleted st) =
        Some (''Cleared '' @ digits (length (filter t_done (todos st))) @
              (if length (filter t_done (todos st)) = 1 then '' completed item''
               else '' completed items''))) \<and>
   (filter t_done (todos st) = [] \<longrightarrow>
      undoStack (clearCompleted st) = undoStack st \<and>
      undoMessage (clearCompleted st) = undoMessage st)"
  by (simp add: clearCompleted_def clearedMessage_def Let_def)

theorem clearCompleted_removes_done_witness:
  "filter t_done (todos
      (initial\<lparr>todos := [\<lparr>t_id = ''a'', t_text = ''Buy milk'', t_done = False, t_dueDate = None\<rparr>,
                          \<lparr>t_id = ''b'', t_text = ''Call Bob'', t_done = True, t_dueDate = None\<rparr>]\<rparr>))
     \<noteq> [] \<and>
   todos (clearCompleted
      (initial\<lparr>todos := [\<lparr>t_id = ''a'', t_text = ''Buy milk'', t_done = False, t_dueDate = None\<rparr>,
                          \<lparr>t_id = ''b'', t_text = ''Call Bob'', t_done = True, t_dueDate = None\<rparr>]\<rparr>))
     = [\<lparr>t_id = ''a'', t_text = ''Buy milk'', t_done = False, t_dueDate = None\<rparr>] \<and>
   undoMessage (clearCompleted
      (initial\<lparr>todos := [\<lparr>t_id = ''a'', t_text = ''Buy milk'', t_done = False, t_dueDate = None\<rparr>,
                          \<lparr>t_id = ''b'', t_text = ''Call Bob'', t_done = True, t_dueDate = None\<rparr>]\<rparr>))
     = Some ''Cleared 1 completed item'' \<and>
   filter t_done (todos (initial\<lparr>undoMessage := Some ''Deleted \"x\"''\<rparr>)) = [] \<and>
   undoMessage (clearCompleted (initial\<lparr>undoMessage := Some ''Deleted \"x\"''\<rparr>))
     = Some ''Deleted \"x\"''"
  using clearCompleted_removes_done
     [of "initial\<lparr>todos := [\<lparr>t_id = ''a'', t_text = ''Buy milk'', t_done = False, t_dueDate = None\<rparr>,
                            \<lparr>t_id = ''b'', t_text = ''Call Bob'', t_done = True, t_dueDate = None\<rparr>]\<rparr>"]
    clearCompleted_removes_done [of "initial\<lparr>undoMessage := Some ''Deleted \"x\"''\<rparr>"]
  by (simp add: initial_def digits.simps digit_def)

section \<open>Uniqueness of ids\<close>

lemma ids_map_keeping_id: "(\<And>t. t_id (f t) = t_id t) \<Longrightarrow> map (t_id \<circ> f) ts = ids ts"
  by (induction ts) simp_all

lemma distinct_ids_filter: "distinct (ids ts) \<Longrightarrow> distinct (ids (filter P ts))"
  by (induction ts) auto

lemma ids_of_absent_disjoint: "A \<inter> set (ids (filter (\<lambda>t. t_id t \<notin> A) stack)) = {}"
  by (induction stack) simp_all

lemma addTodo_unique:
  assumes "distinct (ids (todos st))" and "safeId e \<notin> set (ids (todos st))"
  shows "distinct (ids (todos (addTodo e st)))"
  using assms by (simp add: addTodo_def Let_def)

lemma add_unique:
  assumes "distinct (ids (todos st))" and "safeId e \<notin> set (ids (todos st))"
  shows "distinct (ids (todos (add e txt due st)))"
  using assms by (simp add: add_def addTodo_unique)

lemma add_buffer: "undoStack (add e txt due st) = undoStack st"
  by (simp add: add_def addTodo_def Let_def)

lemma toggleTodo_ids: "ids (todos (toggleTodo i st)) = ids (todos st)"
  by (simp add: toggleTodo_def ids_map_keeping_id)

lemma toggleTodo_buffer: "undoStack (toggleTodo i st) = undoStack st"
  by (simp add: toggleTodo_def)

lemma deleteTodo_unique:
  "distinct (ids (todos st)) \<Longrightarrow> distinct (ids (todos (deleteTodo i st)))"
  by (simp add: deleteTodo_def distinct_ids_filter split: option.splits)

lemma deleteTodo_buffer: "buffer_ok st \<Longrightarrow> buffer_ok (deleteTodo i st)"
  by (simp add: deleteTodo_def buffer_ok_def split: option.splits)

lemma editCommit_unique:
  "distinct (ids (todos st)) \<Longrightarrow> distinct (ids (todos (editCommit i txt st)))"
  by (simp add: editCommit_def saveEditing_def Let_def distinct_ids_filter ids_map_keeping_id
      split: option.splits)

lemma editCommit_buffer: "buffer_ok st \<Longrightarrow> buffer_ok (editCommit i txt st)"
  by (simp add: editCommit_def saveEditing_def Let_def buffer_ok_def split: option.splits)

lemma clearCompleted_unique:
  "distinct (ids (todos st)) \<Longrightarrow> distinct (ids (todos (clearCompleted st)))"
  by (simp add: clearCompleted_def Let_def distinct_ids_filter)

lemma clearCompleted_buffer:
  "distinct (ids (todos st)) \<Longrightarrow> buffer_ok st \<Longrightarrow> buffer_ok (clearCompleted st)"
  by (simp add: clearCompleted_def Let_def buffer_ok_def distinct_ids_filter)

lemma undo_unique:
  assumes "distinct (ids (todos st))" and "buffer_ok st"
  shows "distinct (ids (todos (undo st)))"
proof (cases "undoStack st")
  case None
  with assms show ?thesis by (simp add: undo_def)
next
  case (Some stack)
  with assms have "distinct (ids stack)" by (simp add: buffer_ok_def)
  then have "distinct (ids (filter (\<lambda>t. t_id t \<notin> set (ids (todos st))) stack))"
    by (rule distinct_ids_filter)
  moreover have "set (ids (todos st)) \<inter>
      set (ids (filter (\<lambda>t. t_id t \<notin> set (ids (todos st))) stack)) = {}"
    by (rule ids_of_absent_disjoint)
  ultimately show ?thesis using assms(1) Some by (simp add: undo_def Let_def)
qed

lemma undo_buffer: "buffer_ok st \<Longrightarrow> buffer_ok (undo st)"
  by (simp add: undo_def buffer_ok_def Let_def split: option.splits)

lemma undo_reinserts_absent_only:
  "t \<in> set (todos (undo st)) \<Longrightarrow> t \<in> set (todos st) \<or> t_id t \<notin> set (ids (todos st))"
  by (auto simp: undo_def Let_def split: option.splits if_splits)

lemma perform_unique:
  assumes "distinct (ids (todos st))" and "buffer_ok st" and "fresh a st"
  shows "distinct (ids (todos (perform a st))) \<and> buffer_ok (perform a st)"
proof (cases a)
  case (Add e tx due)
  with assms show ?thesis by (simp add: add_unique buffer_ok_def add_buffer)
next
  case (Toggle i)
  with assms show ?thesis by (simp add: toggleTodo_ids buffer_ok_def toggleTodo_buffer)
next
  case (Delete i)
  with assms show ?thesis by (simp add: deleteTodo_unique deleteTodo_buffer)
next
  case (EditCommit i tx)
  with assms show ?thesis by (simp add: editCommit_unique editCommit_buffer)
next
  case ClearCompleted
  with assms show ?thesis by (simp add: clearCompleted_unique clearCompleted_buffer)
next
  case Undo
  with assms show ?thesis by (simp add: undo_unique undo_buffer)
next
  case DismissUndo
  with assms show ?thesis by (simp add: dismissUndo_def buffer_ok_def)
qed

lemma run_unique:
  assumes "distinct (ids (todos st))" and "buffer_ok st" and "all_fresh as st"
  shows "distinct (ids (todos (run as st))) \<and> buffer_ok (run as st)"
  using assms
proof (induction as arbitrary: st)
  case Nil
  then show ?case by simp
next
  case (Cons a as)
  from Cons.prems have "distinct (ids (todos (perform a st))) \<and> buffer_ok (perform a st)"
    by (simp add: perform_unique)
  with Cons.prems Cons.IH [of "perform a st"] show ?case by simp
qed

text \<open>
  C9. A session starts with no pending undo. From such a state whose collection has no
  two tasks with the same id, perform any sequence of \<^verbatim>\<open>add\<close>, \<^verbatim>\<open>toggle\<close>,
  \<^verbatim>\<open>delete\<close>, \<^verbatim>\<open>editCommit\<close>, \<^verbatim>\<open>clearCompleted\<close>, \<^verbatim>\<open>undo\<close> and \<^verbatim>\<open>dismissUndo\<close> in
  which every \<^verbatim>\<open>add\<close> receives from the identifier generator an id that is not in the
  collection at that moment. Then no two tasks of the collection share an id, and
  whichever of the seven operations is performed next (an \<^verbatim>\<open>add\<close> again with an id that
  is not in the collection), no two tasks of the collection share an id after it. In
  particular every task that \<^verbatim>\<open>undo\<close> puts into the collection has an id that was not
  in it.
\<close>

theorem operations_preserve_unique_ids:
  assumes "distinct (ids (todos st))" and "undoStack st = None" and "all_fresh as st"
  shows "distinct (ids (todos (run as st))) \<and>
         (\<forall>a. fresh a (run as st) \<longrightarrow> distinct (ids (todos (perform a (run as st))))) \<and>
         (\<forall>t \<in> set (todos (undo (run as st))).
            t \<in> set (todos (run as st)) \<or> t_id t \<notin> set (ids (todos (run as st))))"
proof -
  from assms(2) have "buffer_ok st" by (simp add: buffer_ok_def)
  with assms have inv: "distinct (ids (todos (run as st))) \<and> buffer_ok (run as st)"
    by (simp add: run_unique)
  then have "distinct (ids (todos (perform a (run as st))))" if "fresh a (run as st)" for a
    using that perform_unique [of "run as st" a] by simp
  with inv show ?thesis using undo_reinserts_absent_only by blast
qed

theorem operations_preserve_unique_ids_witness:
  "distinct (ids (todos initial)) \<and> undoStack initial = None \<and>
   all_fresh
     [Add \<lparr>randomUUID = Some ''u1'', clockAndRandom = []\<rparr> ''Buy milk'' ''2024-01-01'',
      Add \<lparr>randomUUID = None, clockAndRandom = ''17.5''\<rparr> '' Call Bob '' [],
      Toggle ''u1'', ClearCompleted, EditCommit ''17.5'' [], Undo, DismissUndo] initial \<and>
   todos (run
     [Add \<lparr>randomUUID = Some ''u1'', clockAndRandom = []\<rparr> ''Buy milk'' ''2024-01-01'',
      Add \<lparr>randomUUID = None, clockAndRandom = ''17.5''\<rparr> '' Call Bob '' [],
      Toggle ''u1'', ClearCompleted, EditCommit ''17.5'' [], Undo, DismissUndo] initial)
     = [\<lparr>t_id = ''17.5'', t_text = ''Call Bob'', t_done = False, t_dueDate = None\<rparr>] \<and>
   distinct (ids (todos (run
     [Add \<lparr>randomUUID = Some ''u1'', clockAndRandom = []\<rparr> ''Buy milk'' ''2024-01-01'',
      Add \<lparr>randomUUID = None, clockAndRandom = ''17.5''\<rparr> '' Call Bob '' [],
      Toggle ''u1'', ClearCompleted, EditCommit ''17.5'' [], Undo, DismissUndo] initial)))"
  using operations_preserve_unique_ids [of initial
     "[Add \<lparr>randomUUID = Some ''u1'', clockAndRandom = []\<rparr> ''Buy milk'' ''2024-01-01'',
       Add \<lparr>randomUUID = None, clockAndRandom = ''17.5''\<rparr> '' Call Bob '' [],
       Toggle ''u1'', ClearCompleted, EditCommit ''17.5'' [], Undo, DismissUndo]"]
  by (simp add: initial_def buffer_ok_def add_def addTodo_def safeId_def trim_def
      isWhiteSpace_def toggleTodo_def clearCompleted_def clearedMessage_def editCommit_def
      saveEditing_def deletedMessage_def undo_def dismissUndo_def Let_def)

section \<open>The order of strings\<close>

lemma js_less_irrefl: "\<not> js_less x x"
  by (induction x) simp_all

lemma js_less_trans: "js_less x y \<Longrightarrow> js_less y z \<Longrightarrow> js_less x z"
proof (induction x y arbitrary: z rule: js_less.induct)
  case (1 xs)
  then show ?case by simp
next
  case (2 y ys)
  then show ?case by (cases z) simp_all
next
  case (3 x xs y ys)
  then show ?case by (cases z) (auto split: if_splits)
qed

lemma char_code_total:
  "x \<noteq> y \<Longrightarrow> (of_char x :: nat) < of_char y \<or> (of_char y :: nat) < of_char x"
  using of_char_eq_iff [of x y, where ?'a = nat] by linarith

lemma js_less_total: "x \<noteq> y \<Longrightarrow> js_less x y \<or> js_less y x"
proof (induction x y rule: js_less.induct)
  case (1 xs)
  then show ?case by (cases xs) simp_all
next
  case (2 y ys)
  then show ?case by simp
next
  case (3 x xs y ys)
  then show ?case using char_code_total [of x y] by auto
qed

lemma js_less_asym: "js_less x y \<Longrightarrow> \<not> js_less y x"
  using js_less_trans [of x y x] js_less_irrefl [of x] by blast

lemma js_less_Nil: "js_less [] y \<longleftrightarrow> y \<noteq> []"
  by (cases y) simp_all

lemma codeUnitCompare_le: "codeUnitCompare x y \<le> 0 \<longleftrightarrow> x = y \<or> js_less x y"
  by (simp add: codeUnitCompare_def)

lemma total_preorder_codeUnitCompare: "total_preorder codeUnitCompare"
proof -
  have "codeUnitCompare x y \<le> 0 \<or> codeUnitCompare y x \<le> 0" for x y
    using js_less_total [of x y] by (auto simp: codeUnitCompare_le)
  moreover have "codeUnitCompare x z \<le> 0"
    if "codeUnitCompare x y \<le> 0" and "codeUnitCompare y z \<le> 0" for x y z
    using that js_less_trans [of x y z] by (auto simp: codeUnitCompare_le)
  ultimately show ?thesis unfolding total_preorder_def by blast
qed

lemma dates_in_code_unit_order_codeUnitCompare: "dates_in_code_unit_order codeUnitCompare ts"
  by (simp add: dates_in_code_unit_order_def codeUnitCompare_le)

section \<open>Sorting\<close>

lemma mset_insert_by: "mset (insert_by cmp x ys) = add_mset x (mset ys)"
  by (induction ys) simp_all

lemma mset_array_sort: "mset (array_sort cmp xs) = mset xs"
  by (induction xs) (simp_all add: array_sort_def mset_insert_by)

lemma set_array_sort: "set (array_sort cmp xs) = set xs"
  using mset_array_sort [of cmp xs] by (metis set_mset_mset)

lemma length_array_sort: "length (array_sort cmp xs) = length xs"
  using mset_array_sort [of cmp xs] by (metis size_mset)

lemma sorted_insert_by:
  assumes total: "\<And>a b. a \<in> A \<Longrightarrow> b \<in> A \<Longrightarrow> cmp a b \<le> 0 \<or> cmp b a \<le> 0"
    and trans: "\<And>a b c. a \<in> A \<Longrightarrow> b \<in> A \<Longrightarrow> c \<in> A \<Longrightarrow>
                  cmp a b \<le> 0 \<Longrightarrow> cmp b c \<le> 0 \<Longrightarrow> cmp a c \<le> 0"
    and "x \<in> A" and "set ys \<subseteq> A" and "sorted_wrt (\<lambda>a b. cmp a b \<le> 0) ys"
  shows "sorted_wrt (\<lambda>a b. cmp a b \<le> 0) (insert_by cmp x ys)"
  using assms(3-5)
proof (induction ys)
  case Nil
  then show ?case by simp
next
  case (Cons y ys)
  show ?case
  proof (cases "cmp x y \<le> 0")
    case True
    have "cmp x z \<le> 0" if "z \<in> set ys" for z
    proof -
      from Cons.prems that have "cmp y z \<le> 0" and "z \<in> A" and "y \<in> A" by auto
      with True \<open>x \<in> A\<close> show ?thesis using trans [of x y z] by blast
    qed
    with True Cons.prems show ?thesis by auto
  next
    case False
    with Cons.prems have "cmp y x \<le> 0" using total [of x y] by auto
    moreover have "set (insert_by cmp x ys) = insert x (set ys)"
      using mset_insert_by [of cmp x ys] by (metis set_mset_add_mset_insert set_mset_mset)
    ultimately show ?thesis using False Cons by auto
  qed
qed

lemma sorted_array_sort:
  assumes total: "\<And>a b. a \<in> A \<Longrightarrow> b \<in> A \<Longrightarrow> cmp a b \<le> 0 \<or> cmp b a \<le> 0"
    and trans: "\<And>a b c. a \<in> A \<Longrightarrow> b \<in> A \<Longrightarrow> c \<in> A \<Longrightarrow>
                  cmp a b \<le> 0 \<Longrightarrow> cmp b c \<le> 0 \<Longrightarrow> cmp a c \<le> 0"
    and "set xs \<subseteq> A"
  shows "sorted_wrt (\<lambda>a b. cmp a b \<le> 0) (array_sort cmp xs)"
  using assms(3)
proof (induction xs)
  case Nil
  then show ?case by (simp add: array_sort_def)
next
  case (Cons x xs)
  then have "sorted_wrt (\<lambda>a b. cmp a b \<le> 0) (array_sort cmp xs)" by simp
  moreover have "set (array_sort cmp xs) \<subseteq> A" using Cons.prems by (simp add: set_array_sort)
  moreover have "x \<in> A" using Cons.prems by simp
  ultimately have "sorted_wrt (\<lambda>a b. cmp a b \<le> 0) (insert_by cmp x (array_sort cmp xs))"
    using sorted_insert_by [of A cmp x "array_sort cmp xs"] total trans by blast
  then show ?case by (simp add: array_sort_def)
qed

section \<open>The projection sorted by due date\<close>

lemma passes_simps:
  "passes F_all = (\<lambda>t. True)"
  "passes F_active = (\<lambda>t. \<not> t_done t)"
  "passes F_completed = (\<lambda>t. t_done t)"
  by (simp_all add: fun_eq_iff passes_def)

lemma filteredTodos_passes:
  "filteredTodos lc ts flt srt =
     (if srt = S_due then array_sort (dueComparator lc) (filter (passes flt) ts)
      else if srt = S_status then array_sort (statusComparator lc) (filter (passes flt) ts)
      else filter (passes flt) ts)"
  by (cases flt) (simp_all add: filteredTodos_def passes_simps)

lemma dueComparator_le:
  assumes "dates_in_code_unit_order lc ts" and "a \<in> set ts" and "b \<in> set ts"
  shows "dueComparator lc a b \<le> 0 \<longleftrightarrow> due_order lc a b"
  using assms unfolding dates_in_code_unit_order_def dueComparator_def due_order_def Let_def
  by auto

lemma due_order_total:
  assumes "total_preorder lc"
  shows "due_order lc a b \<or> due_order lc b a"
proof (cases "dueKey a = dueKey b")
  case True
  with assms show ?thesis unfolding total_preorder_def due_order_def by auto
next
  case False
  then show ?thesis using js_less_total [of "dueKey a" "dueKey b"]
    by (auto simp: due_order_def)
qed

lemma due_order_trans:
  assumes "total_preorder lc" and "due_order lc a b" and "due_order lc b c"
  shows "due_order lc a c"
proof -
  from assms(1) have tr: "\<And>x y z. lc x y \<le> 0 \<Longrightarrow> lc y z \<le> 0 \<Longrightarrow> lc x z \<le> 0"
    unfolding total_preorder_def by blast
  show ?thesis
  proof (cases "dueKey a = dueKey b")
    case ab: True
    show ?thesis
    proof (cases "dueKey b = dueKey c")
      case True
      with ab assms(2,3) show ?thesis using tr by (auto simp: due_order_def)
    next
      case False
      with ab assms(3) show ?thesis by (auto simp: due_order_def split: if_splits)
    qed
  next
    case ab: False
    show ?thesis
    proof (cases "dueKey b = dueKey c")
      case True
      with ab assms(2) show ?thesis by (auto simp: due_order_def split: if_splits)
    next
      case False
      with ab assms(2,3) show ?thesis
        using js_less_trans [of "dueKey a" "dueKey b" "dueKey c"]
          js_less_irrefl [of "dueKey a"]
        by (auto simp: due_order_def split: if_splits)
    qed
  qed
qed

lemma due_sorted:
  assumes "total_preorder lc" and "dates_in_code_unit_order lc ts" and "set xs \<subseteq> set ts"
  shows "sorted_wrt (due_order lc) (array_sort (dueComparator lc) xs)"
proof -
  have "sorted_wrt (\<lambda>a b. dueComparator lc a b \<le> 0) (array_sort (dueComparator lc) xs)"
  proof (rule sorted_array_sort [where A = "set ts"])
    show "dueComparator lc a b \<le> 0 \<or> dueComparator lc b a \<le> 0"
      if "a \<in> set ts" and "b \<in> set ts" for a b
      using that due_order_total [OF assms(1), of a b] by (simp add: dueComparator_le [OF assms(2)])
    show "dueComparator lc a c \<le> 0"
      if "a \<in> set ts" and "b \<in> set ts" and "c \<in> set ts"
        and "dueComparator lc a b \<le> 0" and "dueComparator lc b c \<le> 0" for a b c
      using that due_order_trans [OF assms(1), of a b c] by (simp add: dueComparator_le [OF assms(2)])
    show "set xs \<subseteq> set ts" by (rule assms(3))
  qed
  moreover have "due_order lc a b"
    if "a \<in> set (array_sort (dueComparator lc) xs)" and "b \<in> set (array_sort (dueComparator lc) xs)"
      and "dueComparator lc a b \<le> 0" for a b
  proof -
    from that assms(3) have "a \<in> set ts" and "b \<in> set ts" by (auto simp: set_array_sort)
    with that(3) show ?thesis by (simp add: dueComparator_le [OF assms(2)])
  qed
  ultimately show ?thesis by (rule sorted_wrt_mono_rel [rotated])
qed

lemma filteredTodos_in_store_correct:
  assumes "todosRef < length h"
  shows "snd (filteredTodos_in_store lc h todosRef flt srt)
           < length (fst (filteredTodos_in_store lc h todosRef flt srt)) \<and>
         fst (filteredTodos_in_store lc h todosRef flt srt)
           ! snd (filteredTodos_in_store lc h todosRef flt srt)
           = filteredTodos lc (h ! todosRef) flt srt \<and>
         take (length h) (fst (filteredTodos_in_store lc h todosRef flt srt)) = h"
  using assms
  by (cases flt)
     (simp_all add: filteredTodos_in_store_def filteredTodos_def alloc_def sort_in_place_def
       nth_append)

lemma array_sort_three:
  assumes "cmp b a \<le> 0" and "\<not> cmp a b \<le> 0" and "cmp a c \<le> 0" and "\<not> cmp c a \<le> 0"
    and "cmp b c \<le> 0" and "\<not> cmp c b \<le> 0"
    and "xs \<in> set [[a, b, c], [a, c, b], [b, a, c], [b, c, a], [c, a, b], [c, b, a]]"
  shows "array_sort cmp xs = [b, a, c]"
  using assms by (auto simp: array_sort_def)

lemma dates_in_code_unit_orderD:
  "dates_in_code_unit_order lc ts \<Longrightarrow> a \<in> set ts \<Longrightarrow> b \<in> set ts \<Longrightarrow>
   dueKey a \<noteq> [] \<Longrightarrow> dueKey b \<noteq> [] \<Longrightarrow> dueKey a \<noteq> dueKey b \<Longrightarrow>
   (lc (dueKey a) (dueKey b) \<le> 0) = js_less (dueKey a) (dueKey b)"
  unfolding dates_in_code_unit_order_def by blast

lemma due_example:
  assumes a: "t_dueDate a = Some ''2024-01-05''" and b: "t_dueDate b = Some ''2024-01-01''"
    and c: "t_dueDate c = None"
    and ts: "ts \<in> set [[a, b, c], [a, c, b], [b, a, c], [b, c, a], [c, a, b], [c, b, a]]"
    and lc: "dates_in_code_unit_order lc ts"
  shows "filteredTodos lc ts F_all S_due = [b, a, c]"
proof -
  from ts have mem: "a \<in> set ts" "b \<in> set ts" by auto
  have keys: "dueKey a = ''2024-01-05''" "dueKey b = ''2024-01-01''" "dueKey c = []"
    using a b c by (simp_all add: dueKey_def)
  have "lc ''2024-01-01'' ''2024-01-05'' \<le> 0"
    using dates_in_code_unit_orderD [OF lc mem(2) mem(1)] by (simp add: keys)
  moreover have "\<not> lc ''2024-01-05'' ''2024-01-01'' \<le> 0"
    using dates_in_code_unit_orderD [OF lc mem(1) mem(2)] by (simp add: keys)
  ultimately have "array_sort (dueComparator lc) ts = [b, a, c]"
    by (intro array_sort_three ts) (simp_all add: dueComparator_def keys)
  then show ?thesis by (simp add: filteredTodos_def)
qed

lemma iso_date_not_empty: "\<not> iso_date []"
  by (simp add: iso_date_def)

lemma well_dated_key:
  assumes "well_dated t"
  shows "t_dueDate t \<noteq> Some []" and "dueKey t \<noteq> [] \<Longrightarrow> iso_date (dueKey t)"
  using assms iso_date_not_empty
  by (auto simp: well_dated_def dueKey_def split: option.splits)

lemma orders_iso_dates_on_collection:
  assumes "orders_iso_dates lc" and "list_all well_dated ts"
  shows "dates_in_code_unit_order lc ts"
  unfolding dates_in_code_unit_order_def
proof (intro ballI impI)
  fix a b
  assume "a \<in> set ts" and "b \<in> set ts"
    and keys: "dueKey a \<noteq> [] \<and> dueKey b \<noteq> [] \<and> dueKey a \<noteq> dueKey b"
  with assms(2) have "iso_date (dueKey a)" and "iso_date (dueKey b)"
    by (simp_all add: list_all_iff well_dated_key)
  with assms(1) keys show "(lc (dueKey a) (dueKey b) \<le> 0) = js_less (dueKey a) (dueKey b)"
    unfolding orders_iso_dates_def by blast
qed

lemma orders_iso_dates_codeUnitCompare: "orders_iso_dates codeUnitCompare"
  by (simp add: orders_iso_dates_def codeUnitCompare_le)

lemma due_order_by_presence_eq:
  assumes "t_dueDate a \<noteq> Some []" and "t_dueDate b \<noteq> Some []"
  shows "due_order_by_presence lc a b = due_order lc a b"
  using assms js_less_Nil
  by (cases "t_dueDate a"; cases "t_dueDate b")
     (auto simp: due_order_by_presence_def due_order_def dueKey_def)

lemma due_sorted_by_presence:
  assumes "total_preorder lc" and "orders_iso_dates lc" and "list_all well_dated ts"
  shows "sorted_wrt (due_order_by_presence lc) (filteredTodos lc ts flt S_due)"
proof -
  have "sorted_wrt (due_order lc) (filteredTodos lc ts flt S_due)"
    using due_sorted [OF assms(1) orders_iso_dates_on_collection [OF assms(2,3)],
        of "filter (passes flt) ts"]
    by (simp add: filteredTodos_passes)
  moreover have "due_order_by_presence lc a b"
    if "a \<in> set (filteredTodos lc ts flt S_due)" and "b \<in> set (filteredTodos lc ts flt S_due)"
      and "due_order lc a b" for a b
  proof -
    from that(1,2) have "a \<in> set ts" and "b \<in> set ts"
      by (auto simp: filteredTodos_passes set_array_sort)
    with assms(3) have "t_dueDate a \<noteq> Some []" and "t_dueDate b \<noteq> Some []"
      by (simp_all add: list_all_iff well_dated_key)
    with that(3) show ?thesis by (simp add: due_order_by_presence_eq)
  qed
  ultimately show ?thesis by (rule sorted_wrt_mono_rel [rotated])
qed

text \<open>
  C5. The due dates of a collection are ISO dates (\<^verbatim>\<open>YYYY-MM-DD\<close>) or absent, and on ISO
  dates the collation of the platform, a total preorder, orders as the code units do. For
  every such collection and every filter, the projection in the \<^verbatim>\<open>due\<close> mode holds exactly
  the filtered tasks, ordered ascending by the lexicographic comparison of their
  \<^verbatim>\<open>dueDate\<close> strings, with every task lacking a \<^verbatim>\<open>dueDate\<close> after every task having
  one, and ties (equal due dates, or both absent) in ascending order of their texts under
  the collation. In particular tasks dated \<^verbatim>\<open>2024-01-05\<close> and \<^verbatim>\<open>2024-01-01\<close> and one task
  with no due date project in the order \<^verbatim>\<open>2024-01-01\<close>, \<^verbatim>\<open>2024-01-05\<close>, undated, whatever
  the order of insertion. The projection sorts a copy: every array that the store held
  before the call, the canonical collection among them, holds after it what it held
  before.
\<close>

theorem due_projection_ordered:
  assumes "total_preorder lc" and "orders_iso_dates lc" and "list_all well_dated ts"
  shows "mset (filteredTodos lc ts flt S_due) = mset (filter (passes flt) ts) \<and>
         sorted_wrt (due_order_by_presence lc) (filteredTodos lc ts flt S_due) \<and>
         (\<forall>a b c. t_dueDate a = Some ''2024-01-05'' \<and> t_dueDate b = Some ''2024-01-01'' \<and>
                  t_dueDate c = None \<and>
                  ts \<in> set [[a, b, c], [a, c, b], [b, a, c], [b, c, a], [c, a, b], [c, b, a]] \<longrightarrow>
                  filteredTodos lc ts F_all S_due = [b, a, c]) \<and>
         (\<forall>h r. r < length h \<and> h ! r = ts \<longrightarrow>
                take (length h) (fst (filteredTodos_in_store lc h r flt S_due)) = h \<and>
                fst (filteredTodos_in_store lc h r flt S_due)
                  ! snd (filteredTodos_in_store lc h r flt S_due)
                  = filteredTodos lc ts flt S_due)"
proof -
  have "mset (filteredTodos lc ts flt S_due) = mset (filter (passes flt) ts)"
    by (simp add: filteredTodos_passes mset_array_sort)
  moreover have "sorted_wrt (due_order_by_presence lc) (filteredTodos lc ts flt S_due)"
    using assms by (rule due_sorted_by_presence)
  moreover have "filteredTodos lc ts F_all S_due = [b, a, c]"
    if "t_dueDate a = Some ''2024-01-05''" and "t_dueDate b = Some ''2024-01-01''"
      and "t_dueDate c = None"
      and "ts \<in> set [[a, b, c], [a, c, b], [b, a, c], [b, c, a], [c, a, b], [c, b, a]]"
    for a b c
    using that orders_iso_dates_on_collection [OF assms(2,3)] by (rule due_example)
  moreover have "take (length h) (fst (filteredTodos_in_store lc h r flt S_due)) = h \<and>
      fst (filteredTodos_in_store lc h r flt S_due) ! snd (filteredTodos_in_store lc h r flt S_due)
        = filteredTodos lc ts flt S_due"
    if "r < length h" and "h ! r = ts" for h r
    using filteredTodos_in_store_correct [OF that(1), of lc flt S_due] that(2) by simp
  ultimately show ?thesis by blast
qed

theorem due_projection_ordered_witness:
  "total_preorder codeUnitCompare \<and> orders_iso_dates codeUnitCompare \<and>
   list_all well_dated
     [\<lparr>t_id = ''1'', t_text = ''Pay rent'', t_done = False, t_dueDate = Some ''2024-01-05''\<rparr>,
      \<lparr>t_id = ''2'', t_text = ''Call Bob'', t_done = False, t_dueDate = None\<rparr>,
      \<lparr>t_id = ''3'', t_text = ''Buy milk'', t_done = True, t_dueDate = Some ''2024-01-01''\<rparr>] \<and>
   filteredTodos codeUnitCompare
     [\<lparr>t_id = ''1'', t_text = ''Pay rent'', t_done = False, t_dueDate = Some ''2024-01-05''\<rparr>,
      \<lparr>t_id = ''2'', t_text = ''Call Bob'', t_done = False, t_dueDate = None\<rparr>,
      \<lparr>t_id = ''3'', t_text = ''Buy milk'', t_done = True, t_dueDate = Some ''2024-01-01''\<rparr>]
     F_all S_due
   = [\<lparr>t_id = ''3'', t_text = ''Buy milk'', t_done = True, t_dueDate = Some ''2024-01-01''\<rparr>,
      \<lparr>t_id = ''1'', t_text = ''Pay rent'', t_done = False, t_dueDate = Some ''2024-01-05''\<rparr>,
      \<lparr>t_id = ''2'', t_text = ''Call Bob'', t_done = False, t_dueDate = None\<rparr>]"
proof -
  have w: "list_all well_dated
     [\<lparr>t_id = ''1'', t_text = ''Pay rent'', t_done = False, t_dueDate = Some ''2024-01-05''\<rparr>,
      \<lparr>t_id = ''2'', t_text = ''Call Bob'', t_done = False, t_dueDate = None\<rparr>,
      \<lparr>t_id = ''3'', t_text = ''Buy milk'', t_done = True, t_dueDate = Some ''2024-01-01''\<rparr>]"
    by (simp add: well_dated_def iso_date_def isDigit_def)
  show ?thesis
    using due_projection_ordered [OF total_preorder_codeUnitCompare
        orders_iso_dates_codeUnitCompare w, of F_all]
      total_preorder_codeUnitCompare orders_iso_dates_codeUnitCompare w
    by simp
qed

section \<open>The overdue flag\<close>

text \<open>
  C7. The test \<^verbatim>\<open>!t.dueDate\<close> is how the program asks whether a due date is present: it
  holds for an absent due date and for the empty string, which is no date and which the
  program never stores. For every task whose \<^verbatim>\<open>dueDate\<close> is not the empty string, and
  every current date, the overdue flag is set if and only if the \<^verbatim>\<open>dueDate\<close> is present,
  the task is not done, and the \<^verbatim>\<open>dueDate\<close> is strictly less than the current date in
  the lexicographic order of strings. For every task whatever, the flag is set if and only
  if the \<^verbatim>\<open>dueDate\<close> is a non-empty string, the task is not done, and the \<^verbatim>\<open>dueDate\<close> is
  strictly less than the current date. So the flag is not set for a task that is done,
  whatever its due date, nor for a task with no due date.
\<close>

theorem isOverdue_iff:
  "(t_dueDate t \<noteq> Some [] \<longrightarrow>
      (isOverdue today t \<longleftrightarrow> (\<exists>d. t_dueDate t = Some d \<and> \<not> t_done t \<and> js_less d today))) \<and>
   (isOverdue today t \<longleftrightarrow>
      (\<exists>d. t_dueDate t = Some d \<and> d \<noteq> [] \<and> \<not> t_done t \<and> js_less d today)) \<and>
   (t_done t \<longrightarrow> \<not> isOverdue today t) \<and>
   (t_dueDate t = None \<longrightarrow> \<not> isOverdue today t)"
  by (auto simp: isOverdue_def split: option.splits)

theorem isOverdue_iff_witness:
  "t_dueDate \<lparr>t_id = ''1'', t_text = ''Pay rent'', t_done = False, t_dueDate = Some ''2024-02-29''\<rparr>
     \<noteq> Some [] \<and>
   isOverdue ''2024-03-01''
     \<lparr>t_id = ''1'', t_text = ''Pay rent'', t_done = False, t_dueDate = Some ''2024-02-29''\<rparr> \<and>
   \<not> isOverdue ''2024-02-29''
     \<lparr>t_id = ''1'', t_text = ''Pay rent'', t_done = False, t_dueDate = Some ''2024-02-29''\<rparr> \<and>
   t_done \<lparr>t_id = ''1'', t_text = ''Pay rent'', t_done = True, t_dueDate = Some ''2024-02-29''\<rparr> \<and>
   \<not> isOverdue ''2024-03-01''
     \<lparr>t_id = ''1'', t_text = ''Pay rent'', t_done = True, t_dueDate = Some ''2024-02-29''\<rparr> \<and>
   t_dueDate \<lparr>t_id = ''2'', t_text = ''Call Bob'', t_done = False, t_dueDate = None\<rparr> = None \<and>
   \<not> isOverdue ''2024-03-01''
     \<lparr>t_id = ''2'', t_text = ''Call Bob'', t_done = False, t_dueDate = None\<rparr>"
  using isOverdue_iff [of
      "\<lparr>t_id = ''1'', t_text = ''Pay rent'', t_done = False, t_dueDate = Some ''2024-02-29''\<rparr>"
      "''2024-03-01''"]
    isOverdue_iff [of
      "\<lparr>t_id = ''1'', t_text = ''Pay rent'', t_done = False, t_dueDate = Some ''2024-02-29''\<rparr>"
      "''2024-02-29''"]
    isOverdue_iff [of
      "\<lparr>t_id = ''1'', t_text = ''Pay rent'', t_done = True, t_dueDate = Some ''2024-02-29''\<rparr>"
      "''2024-03-01''"]
    isOverdue_iff [of
      "\<lparr>t_id = ''2'', t_text = ''Call Bob'', t_done = False, t_dueDate = None\<rparr>"
      "''2024-03-01''"]
  by simp

section \<open>The empty string as a due date\<close>

lemma dueKey_without_empty_date: "dueKey (without_empty_date t) = dueKey t"
  by (simp add: without_empty_date_def dueKey_def)

lemma t_text_without_empty_date: "t_text (without_empty_date t) = t_text t"
  by (simp add: without_empty_date_def)

lemma t_done_without_empty_date: "t_done (without_empty_date t) = t_done t"
  by (simp add: without_empty_date_def)

lemma dueComparator_without_empty_date:
  "dueComparator lc (without_empty_date a) (without_empty_date b) = dueComparator lc a b"
  by (simp add: dueComparator_def Let_def dueKey_without_empty_date t_text_without_empty_date)

lemma statusComparator_without_empty_date:
  "statusComparator lc (without_empty_date a) (without_empty_date b) = statusComparator lc a b"
  by (simp add: statusComparator_def Let_def t_done_without_empty_date t_text_without_empty_date)

lemma insert_by_map:
  assumes "\<And>a b. cmp (f a) (f b) = cmp a b"
  shows "insert_by cmp (f x) (map f ys) = map f (insert_by cmp x ys)"
  by (induction ys) (simp_all add: assms)

lemma array_sort_map:
  assumes "\<And>a b. cmp (f a) (f b) = cmp a b"
  shows "array_sort cmp (map f xs) = map f (array_sort cmp xs)"
  by (induction xs) (simp_all add: array_sort_def insert_by_map [of cmp f, OF assms])

lemma filter_passes_without_empty_date:
  "filter (passes flt) (map without_empty_date ts) = map without_empty_date (filter (passes flt) ts)"
  by (induction ts) (simp_all add: passes_def t_done_without_empty_date split: Filter.splits)

lemma filteredTodos_without_empty_date:
  "filteredTodos lc (map without_empty_date ts) flt srt =
     map without_empty_date (filteredTodos lc ts flt srt)"
  by (simp add: filteredTodos_passes filter_passes_without_empty_date
      array_sort_map [of "dueComparator lc" without_empty_date, OF dueComparator_without_empty_date]
      array_sort_map [of "statusComparator lc" without_empty_date,
        OF statusComparator_without_empty_date])

lemma isOverdue_without_empty_date: "isOverdue today (without_empty_date t) = isOverdue today t"
  by (simp add: isOverdue_def without_empty_date_def split: option.splits)

lemma addTodo_no_empty_date:
  "t \<in> set (todos (addTodo e st)) \<Longrightarrow> t \<in> set (todos st) \<or> t_dueDate t \<noteq> Some []"
  by (auto simp: addTodo_def Let_def split: if_splits)

lemma undated_after_dated:
  assumes "total_preorder lc" and "dates_in_code_unit_order lc ts"
    and "i < length (filteredTodos lc ts flt S_due)"
    and "j < length (filteredTodos lc ts flt S_due)"
    and "dueKey (filteredTodos lc ts flt S_due ! i) = []"
    and "dueKey (filteredTodos lc ts flt S_due ! j) \<noteq> []"
  shows "j < i"
proof (rule ccontr)
  assume "\<not> j < i"
  moreover from assms(5,6) have "i \<noteq> j" by auto
  ultimately have "i < j" by simp
  moreover have "sorted_wrt (due_order lc) (filteredTodos lc ts flt S_due)"
    using due_sorted [OF assms(1,2), of "filter (passes flt) ts"]
    by (simp add: filteredTodos_passes)
  ultimately have "due_order lc (filteredTodos lc ts flt S_due ! i) (filteredTodos lc ts flt S_due ! j)"
    using assms(4) by (simp add: sorted_wrt_iff_nth_less)
  with assms(5,6) show False by (simp add: due_order_def)
qed

text \<open>
  C10. A task whose \<^verbatim>\<open>dueDate\<close> is the empty string is treated as the same task without
  a \<^verbatim>\<open>dueDate\<close>: its overdue flag is never set and is the flag of the task without the
  field; the projection of a collection in which the empty due dates are removed is, for
  every filter and sort mode, the projection of the collection, with the empty due dates
  removed; and in the \<^verbatim>\<open>due\<close> mode (under a collation that is a total preorder and orders
  the due dates at hand as their code units do) such a task stands after every task whose
  \<^verbatim>\<open>dueDate\<close> is a non-empty string. No task that \<^verbatim>\<open>add\<close> puts into the collection has
  the empty string as its \<^verbatim>\<open>dueDate\<close>: an empty date input becomes an absent due date.
\<close>

theorem empty_dueDate_is_absent:
  assumes "total_preorder lc" and "dates_in_code_unit_order lc ts"
  shows "(t_dueDate t = Some [] \<longrightarrow> \<not> isOverdue today t) \<and>
         isOverdue today (without_empty_date t) = isOverdue today t \<and>
         filteredTodos lc (map without_empty_date ts) flt srt =
           map without_empty_date (filteredTodos lc ts flt srt) \<and>
         (\<forall>i j. i < length (filteredTodos lc ts flt S_due) \<and>
                j < length (filteredTodos lc ts flt S_due) \<and>
                t_dueDate (filteredTodos lc ts flt S_due ! i) = Some [] \<and>
                dueKey (filteredTodos lc ts flt S_due ! j) \<noteq> [] \<longrightarrow> j < i) \<and>
         (\<forall>u \<in> set (todos (addTodo e st)). u \<in> set (todos st) \<or> t_dueDate u \<noteq> Some [])"
proof -
  have "\<not> isOverdue today t" if "t_dueDate t = Some []"
    using that by (simp add: isOverdue_def)
  moreover have "j < i"
    if "i < length (filteredTodos lc ts flt S_due)" and "j < length (filteredTodos lc ts flt S_due)"
      and "t_dueDate (filteredTodos lc ts flt S_due ! i) = Some []"
      and "dueKey (filteredTodos lc ts flt S_due ! j) \<noteq> []" for i j
    using assms that(1,2) _ that(4)
  proof (rule undated_after_dated)
    from that(3) show "dueKey (filteredTodos lc ts flt S_due ! i) = []"
      by (simp add: dueKey_def)
  qed
  ultimately show ?thesis
    using isOverdue_without_empty_date [of today t]
      filteredTodos_without_empty_date [of lc ts flt srt]
      addTodo_no_empty_date [of _ e st]
    by blast
qed

theorem empty_dueDate_is_absent_witness:
  "total_preorder codeUnitCompare \<and>
   dates_in_code_unit_order codeUnitCompare
     [\<lparr>t_id = ''1'', t_text = ''a'', t_done = False, t_dueDate = Some []\<rparr>,
      \<lparr>t_id = ''2'', t_text = ''b'', t_done = False, t_dueDate = Some ''2024-01-01''\<rparr>] \<and>
   t_dueDate \<lparr>t_id = ''1'', t_text = ''a'', t_done = False, t_dueDate = Some []\<rparr> = Some [] \<and>
   \<not> isOverdue ''2024-03-01'' \<lparr>t_id = ''1'', t_text = ''a'', t_done = False, t_dueDate = Some []\<rparr> \<and>
   filteredTodos codeUnitCompare
     [\<lparr>t_id = ''1'', t_text = ''a'', t_done = False, t_dueDate = Some []\<rparr>,
      \<lparr>t_id = ''2'', t_text = ''b'', t_done = False, t_dueDate = Some ''2024-01-01''\<rparr>]
     F_all S_due
   = [\<lparr>t_id = ''2'', t_text = ''b'', t_done = False, t_dueDate = Some ''2024-01-01''\<rparr>,
      \<lparr>t_id = ''1'', t_text = ''a'', t_done = False, t_dueDate = Some []\<rparr>] \<and>
   filteredTodos codeUnitCompare
     (map without_empty_date
       [\<lparr>t_id = ''1'', t_text = ''a'', t_done = False, t_dueDate = Some []\<rparr>,
        \<lparr>t_id = ''2'', t_text = ''b'', t_done = False, t_dueDate = Some ''2024-01-01''\<rparr>])
     F_all S_due
   = [\<lparr>t_id = ''2'', t_text = ''b'', t_done = False, t_dueDate = Some ''2024-01-01''\<rparr>,
      \<lparr>t_id = ''1'', t_text = ''a'', t_done = False, t_dueDate = None\<rparr>]"
  using empty_dueDate_is_absent [OF total_preorder_codeUnitCompare
      dates_in_code_unit_order_codeUnitCompare,
      of "\<lparr>t_id = ''1'', t_text = ''a'', t_done = False, t_dueDate = Some []\<rparr>" "''2024-03-01''"
         "[\<lparr>t_id = ''1'', t_text = ''a'', t_done = False, t_dueDate = Some []\<rparr>,
           \<lparr>t_id = ''2'', t_text = ''b'', t_done = False, t_dueDate = Some ''2024-01-01''\<rparr>]"
         F_all S_due]
    total_preorder_codeUnitCompare dates_in_code_unit_order_codeUnitCompare
  by (simp add: filteredTodos_def array_sort_def dueComparator_def dueKey_def
      without_empty_date_def)

section \<open>Rounding to 53 bits\<close>

lemma bitlen_0 [simp]: "bitlen 0 = 0"
  by (subst bitlen.simps) simp

lemma bitlen_Suc_0 [simp]: "bitlen (Suc 0) = Suc 0"
  by (subst bitlen.simps) simp

lemma bitlen_Bit0 [simp]: "bitlen (numeral (Num.Bit0 k)) = Suc (bitlen (numeral k))"
  by (subst bitlen.simps) simp

lemma bitlen_Bit1 [simp]: "bitlen (numeral (Num.Bit1 k)) = Suc (bitlen (numeral k))"
  by (subst bitlen.simps) simp







lemma round_half_even_tie: "2 * (n mod d) = d \<Longrightarrow> even (round_half_even n d)"
  by (simp add: round_half_even_def Let_def)
















section \<open>Remaining count and completion percentage\<close>

lemma remainingCount_le: "remainingCount ts \<le> length ts"
  by (simp add: remainingCount_def)








lemma percent_23_40: "Math_round (Double 8092405580431359 (- 47)) = 57"
  by simp









section \<open>Loading never throws and falls back to the defaults\<close>

lemma try_catch_returns: "try_catch body st = Inr (block_end body st)"
  by (simp add: try_catch_def block_end_def split: sum.splits)

lemma load_returns:
  "load getItem parse st =
     Inr (block_end (loadSort getItem)
           (block_end (loadFilter getItem) (block_end (loadTodos getItem parse) st)))"
  by (simp add: load_def try_catch_returns)

lemma after_loadTodos:
  "filter_st (block_end (loadTodos getItem parse) st) = filter_st st"
  "sort_st (block_end (loadTodos getItem parse) st) = sort_st st"
  by (simp_all add: block_end_def loadTodos_def split: sum.splits option.splits parsed.splits)

lemma after_loadFilter:
  "todos (block_end (loadFilter getItem) st) = todos st"
  "sort_st (block_end (loadFilter getItem) st) = sort_st st"
  by (simp_all add: block_end_def loadFilter_def split: sum.splits)

lemma after_loadSort:
  "todos (block_end (loadSort getItem) st) = todos st"
  "filter_st (block_end (loadSort getItem) st) = filter_st st"
  by (simp_all add: block_end_def loadSort_def split: sum.splits)

lemma todos_loaded:
  assumes "load getItem parse st = Inr st'"
  shows "todos st' =
           (case getItem ''todos'' of
              Inl err \<Rightarrow> todos st
            | Inr None \<Rightarrow> todos st
            | Inr (Some saved) \<Rightarrow>
                if saved = [] then todos st
                else (case parse saved of Inr (Array ts) \<Rightarrow> ts | _ \<Rightarrow> todos st))"
proof -
  from assms have "todos st' = todos (block_end (loadTodos getItem parse) st)"
    by (auto simp: load_returns after_loadSort after_loadFilter)
  then show ?thesis
    by (simp add: block_end_def loadTodos_def STORAGE_KEYS_todos_def
        split: sum.splits option.splits parsed.splits)
qed

lemma filter_loaded:
  assumes "load getItem parse st = Inr st'"
  shows "filter_st st' =
           (if getItem ''todos_filter'' = Inr (Some ''all'') then F_all
            else if getItem ''todos_filter'' = Inr (Some ''active'') then F_active
            else if getItem ''todos_filter'' = Inr (Some ''completed'') then F_completed
            else filter_st st)"
proof -
  from assms have "filter_st st' =
      filter_st (block_end (loadFilter getItem) (block_end (loadTodos getItem parse) st))"
    by (auto simp: load_returns after_loadSort)
  moreover have "filter_st (block_end (loadFilter getItem) s) =
           (if getItem ''todos_filter'' = Inr (Some ''all'') then F_all
            else if getItem ''todos_filter'' = Inr (Some ''active'') then F_active
            else if getItem ''todos_filter'' = Inr (Some ''completed'') then F_completed
            else filter_st s)" for s
    by (cases "getItem ''todos_filter''")
       (simp_all add: block_end_def loadFilter_def STORAGE_KEYS_filter_def)
  ultimately show ?thesis by (simp add: after_loadTodos)
qed

lemma sort_loaded:
  assumes "load getItem parse st = Inr st'"
  shows "sort_st st' =
           (if getItem ''todos_sort'' = Inr (Some ''manual'') then S_manual
            else if getItem ''todos_sort'' = Inr (Some ''due'') then S_due
            else if getItem ''todos_sort'' = Inr (Some ''status'') then S_status
            else sort_st st)"
proof -
  from assms have "sort_st st' =
      sort_st (block_end (loadSort getItem)
        (block_end (loadFilter getItem) (block_end (loadTodos getItem parse) st)))"
    by (auto simp: load_returns)
  moreover have "sort_st (block_end (loadSort getItem) s) =
           (if getItem ''todos_sort'' = Inr (Some ''manual'') then S_manual
            else if getItem ''todos_sort'' = Inr (Some ''due'') then S_due
            else if getItem ''todos_sort'' = Inr (Some ''status'') then S_status
            else sort_st s)" for s
    by (cases "getItem ''todos_sort''")
       (simp_all add: block_end_def loadSort_def STORAGE_KEYS_sort_def)
  ultimately show ?thesis by (simp add: after_loadFilter after_loadTodos)
qed

text \<open>
  C8. Whatever the storage holds or does, and whatever the parser says, loading returns
  and does not throw. The task list is as it was before loading (empty, loading into the
  initial state) when reading the tasks key throws, when the key is missing, when its
  value is not JSON, and when it parses to something that is not an array; otherwise it
  is the whole parsed array: no other list results. The filter is as it was (\<^verbatim>\<open>all\<close>)
  unless the filter value is exactly \<^verbatim>\<open>all\<close>, \<^verbatim>\<open>active\<close> or \<^verbatim>\<open>completed\<close>, and the sort
  mode is as it was (\<^verbatim>\<open>manual\<close>) unless the sort value is exactly \<^verbatim>\<open>manual\<close>,
  \<^verbatim>\<open>due\<close> or \<^verbatim>\<open>status\<close>.
\<close>

theorem load_falls_back_to_defaults:
  "\<exists>st'. load getItem parse st = Inr st' \<and>
     ((\<exists>err. getItem ''todos'' = Inl err) \<or> getItem ''todos'' = Inr None \<or>
      (\<exists>saved. getItem ''todos'' = Inr (Some saved) \<and>
         ((\<exists>err. parse saved = Inl err) \<or> parse saved = Inr NotArray))
      \<longrightarrow> todos st' = todos st) \<and>
     (todos st' = todos st \<or>
      (\<exists>saved. getItem ''todos'' = Inr (Some saved) \<and> parse saved = Inr (Array (todos st')))) \<and>
     (getItem ''todos_filter'' \<notin> {Inr (Some ''all''), Inr (Some ''active''), Inr (Some ''completed'')}
      \<longrightarrow> filter_st st' = filter_st st) \<and>
     (getItem ''todos_sort'' \<notin> {Inr (Some ''manual''), Inr (Some ''due''), Inr (Some ''status'')}
      \<longrightarrow> sort_st st' = sort_st st) \<and>
     (st = initial \<longrightarrow>
        (todos st' = [] \<or>
         (\<exists>saved. getItem ''todos'' = Inr (Some saved) \<and> parse saved = Inr (Array (todos st')))) \<and>
        (getItem ''todos_filter'' \<notin>
           {Inr (Some ''all''), Inr (Some ''active''), Inr (Some ''completed'')}
         \<longrightarrow> filter_st st' = F_all) \<and>
        (getItem ''todos_sort'' \<notin> {Inr (Some ''manual''), Inr (Some ''due''), Inr (Some ''status'')}
         \<longrightarrow> sort_st st' = S_manual))"
proof -
  obtain st' where st': "load getItem parse st = Inr st'"
    by (simp add: load_returns)
  have A: "todos st' = todos st"
    if "(\<exists>err. getItem ''todos'' = Inl err) \<or> getItem ''todos'' = Inr None \<or>
      (\<exists>saved. getItem ''todos'' = Inr (Some saved) \<and>
         ((\<exists>err. parse saved = Inl err) \<or> parse saved = Inr NotArray))"
    using that unfolding todos_loaded [OF st'] by auto
  have B: "todos st' = todos st \<or>
      (\<exists>saved. getItem ''todos'' = Inr (Some saved) \<and> parse saved = Inr (Array (todos st')))"
    unfolding todos_loaded [OF st']
    by (simp split: sum.splits option.splits parsed.splits)
  have C: "filter_st st' = filter_st st"
    if "getItem ''todos_filter'' \<notin>
          {Inr (Some ''all''), Inr (Some ''active''), Inr (Some ''completed'')}"
    using that unfolding filter_loaded [OF st'] by simp
  have D: "sort_st st' = sort_st st"
    if "getItem ''todos_sort'' \<notin> {Inr (Some ''manual''), Inr (Some ''due''), Inr (Some ''status'')}"
    using that unfolding sort_loaded [OF st'] by simp
  have I: "todos initial = []" "filter_st initial = F_all" "sort_st initial = S_manual"
    by (simp_all add: initial_def)
  show ?thesis
  proof (rule exI [of _ st'], intro conjI impI)
    show "load getItem parse st = Inr st'" by (rule st')
    show "todos st' = todos st"
      if "(\<exists>err. getItem ''todos'' = Inl err) \<or> getItem ''todos'' = Inr None \<or>
        (\<exists>saved. getItem ''todos'' = Inr (Some saved) \<and>
           ((\<exists>err. parse saved = Inl err) \<or> parse saved = Inr NotArray))"
      using that by (rule A)
    show "todos st' = todos st \<or>
      (\<exists>saved. getItem ''todos'' = Inr (Some saved) \<and> parse saved = Inr (Array (todos st')))"
      by (rule B)
    show "filter_st st' = filter_st st"
      if "getItem ''todos_filter'' \<notin>
            {Inr (Some ''all''), Inr (Some ''active''), Inr (Some ''completed'')}"
      using that by (rule C)
    show "sort_st st' = sort_st st"
      if "getItem ''todos_sort'' \<notin> {Inr (Some ''manual''), Inr (Some ''due''), Inr (Some ''status'')}"
      using that by (rule D)
    show "todos st' = [] \<or>
      (\<exists>saved. getItem ''todos'' = Inr (Some saved) \<and> parse saved = Inr (Array (todos st')))"
      if "st = initial"
      using B that I(1) by simp
    show "filter_st st' = F_all"
      if "st = initial" and "getItem ''todos_filter'' \<notin>
            {Inr (Some ''all''), Inr (Some ''active''), Inr (Some ''completed'')}"
      using C [OF that(2)] that(1) I(2) by simp
    show "sort_st st' = S_manual"
      if "st = initial" and "getItem ''todos_sort'' \<notin>
            {Inr (Some ''manual''), Inr (Some ''due''), Inr (Some ''status'')}"
      using D [OF that(2)] that(1) I(3) by simp
  qed
qed

theorem load_falls_back_to_defaults_witness:
  "(\<lambda>k. if k = ''todos'' then Inr (Some ''{bad'')
        else if k = ''todos_filter'' then Inr (Some ''done'')
        else Inl SecurityError) ''todos'' = Inr (Some ''{bad'') \<and>
   (\<lambda>s. if s = ''[]'' then Inr (Array []) else Inl SyntaxError) ''{bad'' = Inl SyntaxError \<and>
   (\<exists>st'. load (\<lambda>k. if k = ''todos'' then Inr (Some ''{bad'')
                     else if k = ''todos_filter'' then Inr (Some ''done'')
                     else Inl SecurityError)
                (\<lambda>s. if s = ''[]'' then Inr (Array []) else Inl SyntaxError) initial = Inr st' \<and>
          todos st' = [] \<and> filter_st st' = F_all \<and> sort_st st' = S_manual)"
  using load_falls_back_to_defaults
     [of "\<lambda>k. if k = ''todos'' then Inr (Some ''{bad'')
               else if k = ''todos_filter'' then Inr (Some ''done'')
               else Inl SecurityError"
         "\<lambda>s. if s = ''[]'' then Inr (Array []) else Inl SyntaxError" initial]
  by (auto simp: initial_def)

end
